theory Spec2Isabelle
  imports Main
begin

section \<open>Text: Python strings over the code points below 256\<close>

text \<open>
  A Python \<open>str\<close> is a sequence of code points; here a \<^typ>\<open>char\<close> stands for one code
  point below 256, so \<^const>\<open>length\<close> and \<^const>\<open>take\<close> count what \<open>len\<close> and slicing
  count. The character classes are those of Python 3 on that range.
\<close>

definition newline :: string where
  "newline = [CHR 0x0A]"

definition isspace :: "char \<Rightarrow> bool" where
  \<comment> \<open>\<open>str.isspace\<close> and the regular expression class \<open>\s\<close>\<close>
  "isspace c \<longleftrightarrow> (of_char c :: nat) \<in> {9, 10, 11, 12, 13, 28, 29, 30, 31, 32, 133, 160}"

definition strip :: "string \<Rightarrow> string" where
  \<comment> \<open>\<open>s.strip()\<close>: whitespace removed at both ends\<close>
  "strip s = rev (dropWhile isspace (rev (dropWhile isspace s)))"

fun join :: "string \<Rightarrow> string list \<Rightarrow> string" where
  \<comment> \<open>\<open>sep.join(xs)\<close>\<close>
  "join sep [] = []"
| "join sep [x] = x"
| "join sep (x # y # ys) = x @ sep @ join sep (y # ys)"

fun str_nat :: "nat \<Rightarrow> string" where
  \<comment> \<open>\<open>str(n)\<close> for a non-negative integer: its decimal digits\<close>
  "str_nat n =
     (if n < 10 then [''0123456789'' ! n]
      else str_nat (n div 10) @ [''0123456789'' ! (n mod 10)])"

declare str_nat.simps [simp del]

definition truthy :: "string option \<Rightarrow> bool" where
  \<comment> \<open>the truth value of \<open>d.get(key)\<close>: false for a missing value and for the empty string\<close>
  "truthy v \<longleftrightarrow> (case v of None \<Rightarrow> False | Some s \<Rightarrow> s \<noteq> [])"

section \<open>PDF extractor: \<open>download_pdf\<close>\<close>

text \<open>
  One attempt of the loop body either raises inside the \<open>try\<close> block (the GET, the status
  check, opening the PDF or extracting a page) or reaches the page loop with the result of
  \<open>extract_text()\<close> for every page (\<open>None\<close> for a page without text layer).
\<close>

datatype attempt_outcome = Raises | Pages "string option list"

datatype event = Attempt nat | Sleep nat

definition page_marker :: "nat \<Rightarrow> string" where
  "page_marker n = ''--- Page '' @ str_nat n @ '' ---''"

fun extract_pages :: "nat \<Rightarrow> string option list \<Rightarrow> string list \<Rightarrow> string list" where
  \<comment> \<open>the loop \<open>for page_num, page in enumerate(pdf.pages, 1)\<close> over \<open>text_content\<close>\<close>
  "extract_pages page_num [] text_content = text_content"
| "extract_pages page_num (page_text # pages) text_content =
     extract_pages (Suc page_num) pages
       (if truthy page_text
        then text_content @ [page_marker page_num, strip (the page_text), '''']
        else text_content)"

fun attempts :: "(nat \<Rightarrow> attempt_outcome) \<Rightarrow> int \<Rightarrow> nat list \<Rightarrow> string option \<times> event list" where
  \<comment> \<open>the loop \<open>for attempt in range(max_retries)\<close>, over the attempts still to make\<close>
  "attempts fetch max_retries [] = (None, [])"
| "attempts fetch max_retries (attempt # rest) =
     (case fetch attempt of
        Pages pages \<Rightarrow>
          (let text_content = extract_pages 1 pages []
           in if text_content \<noteq> []
              then (Some (join newline text_content), [Attempt attempt])
              else (None, [Attempt attempt]))
      | Raises \<Rightarrow>
          (let (r, evs) = attempts fetch max_retries rest
           in (r, Attempt attempt #
                  (if int attempt < max_retries - 1 then [Sleep 2] else []) @ evs)))"

definition download_pdf ::
  "(string \<Rightarrow> nat \<Rightarrow> attempt_outcome) \<Rightarrow> string option \<Rightarrow> int \<Rightarrow> string option \<times> event list" where
  "download_pdf fetch pdf_url max_retries =
     (if \<not> truthy pdf_url then (None, [])
      else attempts (fetch (the pdf_url)) max_retries [0 ..< nat max_retries])"



section \<open>Document records and the search filter: \<open>api_request\<close>, \<open>search_documents\<close>\<close>

text \<open>
  A document is a JSON object of the API's \<open>results\<close> array. A text field of it is missing,
  \<open>null\<close> or a string, and the code reads it in three ways that differ on \<open>null\<close>: \<open>d.get(key)\<close>
  gives \<open>None\<close> for a missing and for a \<open>null\<close> field; \<open>d.get(key, default)\<close> gives the
  default for a missing field only, and \<open>None\<close> for \<open>null\<close>; an f-string writes \<open>None\<close> as the
  four letters. A Python value that is \<open>None\<close> or a string is a \<^typ>\<open>string option\<close>.
  \<open>agencies\<close> is the array of agency entries (empty when the key is missing), each given by
  its \<open>name\<close>, \<open>None\<close> for an entry that has no such key.
\<close>

datatype field = Missing | Null | Text string

record document =
  title :: field
  abstract :: field
  html_url :: field
  pdf_url :: field
  publication_date :: field
  agencies :: "string option list"
  document_number :: field
  doc_type :: field

datatype error = TypeError

fun get :: "field \<Rightarrow> string option" where
  \<comment> \<open>\<open>d.get(key)\<close>\<close>
  "get Missing = None"
| "get Null = None"
| "get (Text s) = Some s"

fun get_or :: "field \<Rightarrow> string \<Rightarrow> string option" where
  \<comment> \<open>\<open>d.get(key, default)\<close>: the default stands in for a missing key, not for \<open>null\<close>\<close>
  "get_or Missing dflt = Some dflt"
| "get_or Null dflt = None"
| "get_or (Text s) dflt = Some s"

fun name_or :: "string option \<Rightarrow> string \<Rightarrow> string" where
  \<comment> \<open>\<open>agency.get('name', default)\<close> for an entry with or without the key\<close>
  "name_or None dflt = dflt"
| "name_or (Some s) dflt = s"

fun fmt :: "string option \<Rightarrow> string" where
  \<comment> \<open>\<open>f"{v}"\<close>\<close>
  "fmt None = ''None''"
| "fmt (Some s) = s"

fun or_empty :: "string option \<Rightarrow> string" where
  \<comment> \<open>\<open>(v or '')\<close>\<close>
  "or_empty None = []"
| "or_empty (Some s) = s"

definition lower_char :: "char \<Rightarrow> char" where
  "lower_char c =
     (let n = (of_char c :: nat)
      in if (65 \<le> n \<and> n \<le> 90) \<or> (192 \<le> n \<and> n \<le> 222 \<and> n \<noteq> 215)
         then char_of (n + 32) else c)"

definition lower :: "string \<Rightarrow> string" where
  \<comment> \<open>\<open>s.lower()\<close>\<close>
  "lower s = map lower_char s"

fun starts_with :: "string \<Rightarrow> string \<Rightarrow> bool" where
  "starts_with [] s = True"
| "starts_with (k # ks) [] = False"
| "starts_with (k # ks) (c # cs) = (k = c \<and> starts_with ks cs)"

fun contains :: "string \<Rightarrow> string \<Rightarrow> bool" where
  \<comment> \<open>\<open>keyword in content\<close>: the keyword occurs as a substring\<close>
  "contains keyword [] = (keyword = [])"
| "contains keyword (c # cs) = (starts_with keyword (c # cs) \<or> contains keyword cs)"

definition ai_keywords :: "string list" where
  "ai_keywords =
     [''artificial intelligence'', ''machine learning'', ''neural network'',
      ''deep learning'', ''ai safety'', ''ai governance'', ''algorithmic'',
      ''automated decision'', ''ai system'', ''ai model'', ''ai technology'']"

definition content_of :: "document \<Rightarrow> string" where
  \<comment> \<open>\<open>f"{title} {abstract}"\<close> of the lowercased title and abstract\<close>
  "content_of doc =
     lower (or_empty (get (title doc))) @ '' '' @ lower (or_empty (get (abstract doc)))"

definition ai_relevant :: "document \<Rightarrow> bool" where
  "ai_relevant doc \<longleftrightarrow> list_ex (\<lambda>keyword. contains keyword (content_of doc)) ai_keywords"

definition title_prefix :: "document \<Rightarrow> error + string" where
  \<comment> \<open>\<open>doc.get('title', 'Untitled')[:60]\<close>, the argument of the log lines: slicing \<open>None\<close> raises\<close>
  "title_prefix doc =
     (case get_or (title doc) ''Untitled'' of None \<Rightarrow> Inl TypeError | Some t \<Rightarrow> Inr (take 60 t))"

fun filter_results :: "document list \<Rightarrow> document list \<Rightarrow> error + document list" where
  \<comment> \<open>the loop \<open>for doc in results\<close> over \<open>pdf_results\<close>; both branches log the title\<close>
  "filter_results [] pdf_results = Inr pdf_results"
| "filter_results (doc # results) pdf_results =
     (if \<not> truthy (get (pdf_url doc)) then filter_results results pdf_results
      else if ai_relevant doc
      then (case title_prefix doc of
              Inl err \<Rightarrow> Inl err
            | Inr logged \<Rightarrow> filter_results results (pdf_results @ [doc]))
      else (case title_prefix doc of
              Inl err \<Rightarrow> Inl err
            | Inr logged \<Rightarrow> filter_results results pdf_results))"

definition slice_to :: "'a list \<Rightarrow> int \<Rightarrow> 'a list" where
  \<comment> \<open>\<open>xs[:n]\<close>: a negative bound counts from the end\<close>
  "slice_to xs n =
     (if 0 \<le> n then take (nat n) xs else take (nat (int (length xs) + n)) xs)"

text \<open>
  The GET of \<open>api_request\<close> either raises inside the \<open>try\<close> block (transport error, status
  error of \<open>raise_for_status\<close>, body that is not JSON) or returns the decoded body: a
  value that is false in a condition (\<open>null\<close>, \<open>{}\<close>), or an object whose \<open>results\<close> key
  may be missing.
\<close>

datatype json_body = Falsy | Object "document list option"

datatype request_outcome = RequestError | Returned json_body

definition api_request ::
  "(string \<Rightarrow> int \<Rightarrow> request_outcome) \<Rightarrow> string \<Rightarrow> int \<Rightarrow> json_body option" where
  "api_request http term per_page =
     (case http term per_page of RequestError \<Rightarrow> None | Returned body \<Rightarrow> Some body)"

definition search_documents ::
  "(string \<Rightarrow> int \<Rightarrow> request_outcome) \<Rightarrow> int \<Rightarrow> string \<Rightarrow> error + document list" where
  "search_documents http max_docs term =
     (case api_request http term (min max_docs 100) of
        None \<Rightarrow> Inr []
      | Some Falsy \<Rightarrow> Inr []
      | Some (Object r) \<Rightarrow>
          (case filter_results (case r of None \<Rightarrow> [] | Some results \<Rightarrow> results) [] of
             Inl err \<Rightarrow> Inl err
           | Inr pdf_results \<Rightarrow> Inr (slice_to pdf_results max_docs)))"

section \<open>Document writer: \<open>save_document\<close>\<close>

definition isword :: "char \<Rightarrow> bool" where
  \<comment> \<open>the regular expression class \<open>\w\<close>\<close>
  "isword c \<longleftrightarrow>
     (let n = (of_char c :: nat)
      in (48 \<le> n \<and> n \<le> 57) \<or> (65 \<le> n \<and> n \<le> 90) \<or> n = 95 \<or> (97 \<le> n \<and> n \<le> 122)
         \<or> n \<in> {170, 178, 179, 181, 185, 186, 188, 189, 190}
         \<or> (192 \<le> n \<and> n \<noteq> 215 \<and> n \<noteq> 247))"

definition hyphen :: char where
  "hyphen = CHR ''-''"

definition strip_unsafe :: "string \<Rightarrow> string" where
  \<comment> \<open>\<open>re.sub(r'[^\w\s-]', '', s)\<close>\<close>
  "strip_unsafe s = filter (\<lambda>c. isword c \<or> isspace c \<or> c = hyphen) s"

definition is_sep :: "char \<Rightarrow> bool" where
  "is_sep c \<longleftrightarrow> c = hyphen \<or> isspace c"

function collapse_runs :: "string \<Rightarrow> string" where
  \<comment> \<open>\<open>re.sub(r'[-\s]+', '-', s)\<close>: every maximal run becomes one hyphen\<close>
  "collapse_runs [] = []"
| "collapse_runs (c # cs) =
     (if is_sep c then hyphen # collapse_runs (dropWhile is_sep cs)
      else c # collapse_runs cs)"
  by pat_completeness auto
termination
  by (relation "measure length") (auto simp: length_dropWhile_le less_Suc_eq_le)

definition safe_title :: "string \<Rightarrow> string" where
  "safe_title t = take 50 (collapse_runs (strip_unsafe t))"

definition filename_of :: "document \<Rightarrow> error + string" where
  \<comment> \<open>\<open>re.sub\<close> raises on a title that is \<open>None\<close>; the date goes through the f-string\<close>
  "filename_of doc =
     (case get_or (title doc) ''Untitled Document'' of
        None \<Rightarrow> Inl TypeError
      | Some t \<Rightarrow>
          Inr (fmt (get_or (publication_date doc) ''unknown'') @ ''-'' @ safe_title t @ ''.txt''))"

definition web_base :: string where
  "web_base = ''https://www.federalregister.gov''"

definition divider :: string where
  "divider = replicate 80 (CHR ''='')"

definition header_of :: "string \<Rightarrow> document \<Rightarrow> string" where
  "header_of timestamp doc =
     ''Title: '' @ fmt (get_or (title doc) ''Untitled Document'') @ newline
     @ ''Date: '' @ fmt (get_or (publication_date doc) ''unknown'') @ newline
     @ ''Document Number: '' @ fmt (get_or (document_number doc) []) @ newline
     @ ''Type: '' @ fmt (get_or (doc_type doc) ''Unknown'') @ newline
     @ ''Agencies: '' @ join '', '' (map (\<lambda>name. name_or name ''Unknown'') (agencies doc)) @ newline
     @ ''HTML URL: '' @ web_base @ fmt (get_or (html_url doc) []) @ newline
     @ ''PDF URL: '' @ fmt (get_or (pdf_url doc) []) @ newline
     @ ''Downloaded: '' @ timestamp @ newline
     @ divider @ newline @ newline"

definition document_text :: "string \<Rightarrow> document \<Rightarrow> string option \<Rightarrow> string" where
  \<comment> \<open>the value of \<open>document_text\<close> when the file is opened\<close>
  "document_text timestamp doc pdf_content =
     (let text0 = header_of timestamp doc;
          text1 = (if truthy (get (abstract doc))
                   then text0 @ ''ABSTRACT:'' @ newline @ the (get (abstract doc)) @ newline
                          @ newline @ divider @ newline @ newline
                   else text0)
      in if truthy pdf_content
         then text1 @ ''FULL DOCUMENT CONTENT:'' @ newline @ newline @ the pdf_content
         else text1 @ ''Note: Full content available via PDF URL above.'' @ newline)"

record written =
  w_filename :: string
  w_text :: string
  w_saved :: bool

definition save_document ::
  "(string \<Rightarrow> bool) \<Rightarrow> string \<Rightarrow> document \<Rightarrow> string option \<Rightarrow> error + written" where
  \<comment> \<open>\<open>can_write\<close>: whether opening and writing the file of that name raises nothing;
      the result is the file asked for and the boolean returned, or the error raised
      before the file is opened\<close>
  "save_document can_write timestamp doc pdf_content =
     (case filename_of doc of
        Inl err \<Rightarrow> Inl err
      | Inr filename \<Rightarrow>
          Inr \<lparr>w_filename = filename,
               w_text = document_text timestamp doc pdf_content,
               w_saved = can_write filename\<rparr>)"

section \<open>Run orchestrator: \<open>run\<close>, \<open>run_comprehensive_search\<close>, \<open>main\<close>\<close>

text \<open>
  The outside world of one run: the answer of the API to a search (by term and page size),
  the outcome of every attempt to fetch and parse a PDF (by URL and attempt number), whether
  a file can be written (by file name), and the formatted time at the write of the \<open>i\<close>-th
  document. The pauses between terms and between documents change no value and are left
  out; the pause of the retry loop is an \<^typ>\<open>event\<close>. An error that nothing catches ends
  the run: the result is the error together with what was processed before it.
\<close>

record env =
  http_json :: "string \<Rightarrow> int \<Rightarrow> request_outcome"
  http_pdf :: "string \<Rightarrow> nat \<Rightarrow> attempt_outcome"
  can_write :: "string \<Rightarrow> bool"
  clock :: "nat \<Rightarrow> string"

record processed =
  p_doc :: document
  p_pdf_content :: "string option"
  p_events :: "event list"
  p_written :: written

fun process_documents ::
  "env \<Rightarrow> nat \<Rightarrow> document list \<Rightarrow> nat \<Rightarrow> (error + nat) \<times> processed list" where
  \<comment> \<open>the loop \<open>for i, doc in enumerate(documents, 1)\<close>, the same in both kinds of run\<close>
  "process_documents e i [] success_count = (Inr success_count, [])"
| "process_documents e i (doc # docs) success_count =
     (case title_prefix doc of
        Inl err \<Rightarrow> (Inl err, [])
      | Inr logged \<Rightarrow>
          (let url = get (pdf_url doc);
               (pdf_content, evs) =
                 (if truthy url then download_pdf (http_pdf e) url 3 else (None, []))
           in case save_document (can_write e) (clock e i) doc pdf_content of
                Inl err \<Rightarrow> (Inl err, [])
              | Inr w \<Rightarrow>
                  (let (r, log) = process_documents e (Suc i) docs
                                    (if w_saved w then Suc success_count else success_count)
                   in (r, \<lparr>p_doc = doc, p_pdf_content = pdf_content, p_events = evs,
                            p_written = w\<rparr> # log))))"

definition finish :: "(error + nat) \<times> processed list \<Rightarrow> (error + bool) \<times> processed list" where
  \<comment> \<open>\<open>return success_count > 0\<close> after the loop\<close>
  "finish r =
     (case fst r of Inl err \<Rightarrow> (Inl err, snd r)
      | Inr success_count \<Rightarrow> (Inr (0 < success_count), snd r))"

definition run :: "env \<Rightarrow> int \<Rightarrow> string \<Rightarrow> (error + bool) \<times> processed list" where
  "run e max_docs search_term =
     (case search_documents (http_json e) max_docs search_term of
        Inl err \<Rightarrow> (Inl err, [])
      | Inr documents \<Rightarrow>
          if documents = [] then (Inr False, [])
          else finish (process_documents e 1 documents 0))"

definition search_terms :: "string list" where
  "search_terms =
     [''artificial intelligence'', ''machine learning'', ''AI safety'', ''AI governance'',
      ''algorithmic accountability'', ''automated decision making'', ''neural networks'',
      ''deep learning'']"

text \<open>
  \<open>all_documents\<close> is a dictionary, which keeps its keys in the order of their first
  insertion: a list of pairs with distinct keys, extended at its end.
\<close>

fun merge_documents :: "(string \<times> document) list \<Rightarrow> document list \<Rightarrow> (string \<times> document) list" where
  \<comment> \<open>the loop \<open>for doc in documents\<close> over \<open>all_documents\<close>\<close>
  "merge_documents all_documents [] = all_documents"
| "merge_documents all_documents (doc # docs) =
     merge_documents
       (let doc_id = get (document_number doc)
        in if truthy doc_id \<and> map_of all_documents (the doc_id) = None
           then all_documents @ [(the doc_id, doc)] else all_documents)
       docs"

fun search_all ::
  "(string \<Rightarrow> int \<Rightarrow> request_outcome) \<Rightarrow> int \<Rightarrow> (string \<times> document) list \<Rightarrow> string list
   \<Rightarrow> error + (string \<times> document) list" where
  \<comment> \<open>the loop \<open>for term in search_terms\<close>\<close>
  "search_all http max_docs all_documents [] = Inr all_documents"
| "search_all http max_docs all_documents (term # terms) =
     (case search_documents http max_docs term of
        Inl err \<Rightarrow> Inl err
      | Inr documents \<Rightarrow>
          search_all http max_docs (merge_documents all_documents documents) terms)"

definition unique_documents :: "env \<Rightarrow> int \<Rightarrow> error + document list" where
  \<comment> \<open>\<open>list(all_documents.values())\<close> after the last term\<close>
  "unique_documents e max_docs =
     (case search_all (http_json e) max_docs [] search_terms of
        Inl err \<Rightarrow> Inl err
      | Inr all_documents \<Rightarrow> Inr (map snd all_documents))"

definition run_comprehensive_search :: "env \<Rightarrow> int \<Rightarrow> (error + bool) \<times> processed list" where
  "run_comprehensive_search e max_docs =
     (case unique_documents e max_docs of
        Inl err \<Rightarrow> (Inl err, [])
      | Inr unique \<Rightarrow>
          if unique = [] then (Inr False, [])
          else finish (process_documents e 1 unique 0))"




section \<open>Notions used in the statements\<close>

fun attempt_numbers :: "event list \<Rightarrow> nat list" where
  \<comment> \<open>the attempts made, in order\<close>
  "attempt_numbers [] = []"
| "attempt_numbers (Attempt k # evs) = k # attempt_numbers evs"
| "attempt_numbers (Sleep s # evs) = attempt_numbers evs"

fun spaced_attempts :: "nat list \<Rightarrow> event list" where
  \<comment> \<open>the given attempts with a wait of 2 seconds between one and the next\<close>
  "spaced_attempts [] = []"
| "spaced_attempts [k] = [Attempt k]"
| "spaced_attempts (k # l # ks) = Attempt k # Sleep 2 # spaced_attempts (l # ks)"

definition page_result :: "string option list \<Rightarrow> string option" where
  \<comment> \<open>what an attempt that reaches the page loop returns\<close>
  "page_result pages =
     (let text_content = extract_pages 1 pages []
      in if text_content \<noteq> [] then Some (join newline text_content) else None)"

definition always_raises :: "string \<Rightarrow> nat \<Rightarrow> attempt_outcome" where
  \<comment> \<open>a server that is down\<close>
  "always_raises url attempt = Raises"

definition image_only_pdf :: "string \<Rightarrow> nat \<Rightarrow> attempt_outcome" where
  \<comment> \<open>a scanned PDF of two pages, neither with extractable text\<close>
  "image_only_pdf url attempt = Pages [None, Some []]"

definition numbered_pages :: "string option list \<Rightarrow> (nat \<times> string option) list" where
  "numbered_pages pages = zip [1 ..< Suc (length pages)] pages"

definition page_lines :: "nat \<times> string option \<Rightarrow> string list" where
  "page_lines np = [page_marker (fst np), strip (the (snd np)), []]"

definition rendered_pages :: "string option list \<Rightarrow> string" where
  "rendered_pages pages =
     join newline (concat (map page_lines (filter (\<lambda>np. truthy (snd np)) (numbered_pages pages))))"

definition three_page_pdf :: "string \<Rightarrow> nat \<Rightarrow> attempt_outcome" where
  "three_page_pdf url attempt =
     (if attempt = 0 then Raises else Pages [Some '' Alpha '', None, Some ''Beta''])"

definition qualifies :: "document \<Rightarrow> bool" where
  \<comment> \<open>a PDF URL that is not empty, and a keyword in the lowercased title and abstract\<close>
  "qualifies doc \<longleftrightarrow>
     truthy (get (pdf_url doc)) \<and> (\<exists>keyword\<in>set ai_keywords. contains keyword (content_of doc))"

definition sample_doc :: "string \<Rightarrow> string \<Rightarrow> document" where
  "sample_doc number t =
     \<lparr>title = Text t, abstract = Null, html_url = Text (''/documents/'' @ number),
      pdf_url = Text (''https://example.org/'' @ number @ ''.pdf''),
      publication_date = Text ''2024-01-15'',
      agencies = [Some ''Commerce Department'', None],
      document_number = Text number, doc_type = Text ''Notice''\<rparr>"

definition sample_results :: "document list" where
  \<comment> \<open>five results, of which the first, the fourth and the fifth pass the filter\<close>
  "sample_results =
     [sample_doc ''2024-00001'' ''Artificial Intelligence Risk'',
      sample_doc ''2024-00002'' ''Fishing Quotas'',
      (sample_doc ''2024-00003'' ''Use of Machine Learning'')\<lparr>pdf_url := Null\<rparr>,
      sample_doc ''2024-00004'' ''Safe artificial intelligence'',
      sample_doc ''2024-00005'' ''DEEP LEARNING in audits'']"

definition five_results :: "string \<Rightarrow> int \<Rightarrow> request_outcome" where
  "five_results term per_page = Returned (Object (Some sample_results))"

definition api_down :: "string \<Rightarrow> int \<Rightarrow> request_outcome" where
  "api_down term per_page = RequestError"

definition offline :: env where
  "offline =
     \<lparr>http_json = api_down, http_pdf = always_raises, can_write = (\<lambda>name. True),
      clock = (\<lambda>i. ''2024-02-01 10:00:00'')\<rparr>"

fun single_hyphens :: "string \<Rightarrow> bool" where
  \<comment> \<open>no two hyphens in a row\<close>
  "single_hyphens (a # b # cs) = (\<not> (a = hyphen \<and> b = hyphen) \<and> single_hyphens (b # cs))"
| "single_hyphens cs = True"

definition name_char :: "char \<Rightarrow> bool" where
  \<comment> \<open>a word character or a hyphen\<close>
  "name_char c \<longleftrightarrow> isword c \<or> c = hyphen"

definition unlines :: "string list \<Rightarrow> string" where
  "unlines ls = concat (map (\<lambda>l. l @ newline) ls)"

definition header_lines :: "string \<Rightarrow> document \<Rightarrow> string list" where
  \<comment> \<open>the lines of the header block; a field that is \<open>null\<close> is written \<open>None\<close>, a
      missing one as its default\<close>
  "header_lines timestamp doc =
     [''Title: '' @ fmt (get_or (title doc) ''Untitled Document''),
      ''Date: '' @ fmt (get_or (publication_date doc) ''unknown''),
      ''Document Number: '' @ fmt (get_or (document_number doc) []),
      ''Type: '' @ fmt (get_or (doc_type doc) ''Unknown''),
      ''Agencies: '' @ join '', '' (map (\<lambda>name. name_or name ''Unknown'') (agencies doc)),
      ''HTML URL: '' @ web_base @ fmt (get_or (html_url doc) []),
      ''PDF URL: '' @ fmt (get_or (pdf_url doc) []),
      ''Downloaded: '' @ timestamp,
      divider,
      []]"

definition abstract_block :: "document \<Rightarrow> string" where
  "abstract_block doc =
     (if truthy (get (abstract doc))
      then unlines [''ABSTRACT:'', the (get (abstract doc)), [], divider, []] else [])"

definition content_block :: "string option \<Rightarrow> string" where
  "content_block pdf_content =
     (if truthy pdf_content
      then unlines [''FULL DOCUMENT CONTENT:'', []] @ the pdf_content
      else unlines [''Note: Full content available via PDF URL above.''])"

definition titled :: document where
  "titled = (sample_doc ''2024-00007'' ''AI Risk: Rules & Safety -- 2024 update'')
              \<lparr>abstract := Text ''Guidance on AI systems.''\<rparr>"

definition has_id :: "string \<Rightarrow> document \<Rightarrow> bool" where
  \<comment> \<open>the record carries this document identifier\<close>
  "has_id i doc \<longleftrightarrow> get (document_number doc) = Some i"

definition returned :: "error + 'a list \<Rightarrow> 'a list" where
  \<comment> \<open>the list a call returned; no element when it raised\<close>
  "returned r = (case r of Inl err \<Rightarrow> [] | Inr xs \<Rightarrow> xs)"

definition term_results :: "env \<Rightarrow> int \<Rightarrow> nat \<Rightarrow> document list" where
  \<comment> \<open>what the search for the \<open>k\<close>-th term returns\<close>
  "term_results e max_docs k =
     returned (search_documents (http_json e) max_docs (search_terms ! k))"

definition keyed :: "(string \<times> document) list \<Rightarrow> bool" where
  \<comment> \<open>a dictionary: distinct keys, each the non-empty identifier of its record\<close>
  "keyed all_documents \<longleftrightarrow>
     distinct (map fst all_documents)
     \<and> (\<forall>kd\<in>set all_documents. fst kd \<noteq> [] \<and> get (document_number (snd kd)) = Some (fst kd))"

definition saved :: "processed \<Rightarrow> bool" where
  \<comment> \<open>the write of this document succeeded\<close>
  "saved p \<longleftrightarrow> w_saved (p_written p)"

definition nameless :: document where
  \<comment> \<open>a record without the key \<open>document_number\<close>\<close>
  "nameless = (sample_doc ''2024-00002'' ''AI safety rules'')\<lparr>document_number := Missing\<rparr>"

definition null_numbered :: document where
  \<comment> \<open>a record whose \<open>document_number\<close> is \<open>null\<close>\<close>
  "null_numbered =
     (sample_doc ''2024-00003'' ''Deep learning audits'')\<lparr>document_number := Null\<rparr>"

definition blank :: document where
  \<comment> \<open>a record whose \<open>document_number\<close> is the empty string\<close>
  "blank = sample_doc [] ''Machine learning in lending''"

definition mixed_ids :: "string \<Rightarrow> int \<Rightarrow> request_outcome" where
  "mixed_ids term per_page =
     Returned (Object (Some
       [nameless, null_numbered, blank, sample_doc ''2024-00001'' (''Artificial intelligence and '' @ term)]))"

definition online :: "(string \<Rightarrow> int \<Rightarrow> request_outcome) \<Rightarrow> env" where
  "online api =
     \<lparr>http_json = api, http_pdf = three_page_pdf, can_write = (\<lambda>name. True),
      clock = (\<lambda>i. ''2024-02-01 10:00:00'')\<rparr>"



definition untitled :: document where
  \<comment> \<open>a record whose title is \<open>null\<close>, relevant by its abstract\<close>
  "untitled =
     (sample_doc ''2024-00006'' [])\<lparr>title := Null, abstract := Text ''On machine learning.''\<rparr>"

definition held :: "document list \<Rightarrow> string \<Rightarrow> int \<Rightarrow> request_outcome" where
  \<comment> \<open>an API that answers every search with the same results\<close>
  "held results term per_page = Returned (Object (Some results))"

definition titled_text :: "document \<Rightarrow> bool" where
  \<comment> \<open>the title is a string, or the key is missing: not \<open>null\<close>\<close>
  "titled_text doc \<longleftrightarrow> title doc \<noteq> Null"


definition text_of :: "error + written \<Rightarrow> string option" where
  \<comment> \<open>the text the writer asked to write; none when it raised before opening the file\<close>
  "text_of r = (case r of Inl err \<Rightarrow> None | Inr w \<Rightarrow> Some (w_text w))"


section \<open>The retry loop of \<open>download_pdf\<close>\<close>

lemma attempt_numbers_append [simp]:
  "attempt_numbers (xs @ ys) = attempt_numbers xs @ attempt_numbers ys"
  by (induction xs rule: attempt_numbers.induct) auto

lemma attempt_numbers_spaced [simp]: "attempt_numbers (spaced_attempts ks) = ks"
  by (induction ks rule: spaced_attempts.induct) auto

lemma attempts_bound:
  "length (attempt_numbers (snd (attempts f mr as))) \<le> length as"
  by (induction as) (auto split: attempt_outcome.splits prod.splits simp: Let_def)

lemma attempts_all_raise:
  "\<forall>k\<in>set as. f k = Raises \<Longrightarrow> \<forall>k\<in>set (butlast as). int k < mr - 1 \<Longrightarrow>
   (as \<noteq> [] \<longrightarrow> \<not> int (last as) < mr - 1) \<Longrightarrow>
   attempts f mr as = (None, spaced_attempts as)"
  by (induction as rule: spaced_attempts.induct) auto

lemma attempts_stop:
  "\<forall>k\<in>set pre. f k = Raises \<and> int k < mr - 1 \<Longrightarrow> f j = Pages ps \<Longrightarrow>
   attempts f mr (pre @ j # post) = (page_result ps, spaced_attempts (pre @ [j]))"
  by (induction pre rule: spaced_attempts.induct) (auto simp: page_result_def Let_def)

lemma extract_pages_acc:
  "extract_pages n ps acc = acc @ extract_pages n ps []"
proof (induction ps arbitrary: n acc)
  case Nil
  show ?case by simp
next
  case (Cons p ps)
  show ?case
    using Cons.IH [of "Suc n" "acc @ [page_marker n, strip (the p), [] ]"]
          Cons.IH [of "Suc n" "[page_marker n, strip (the p), [] ]"]
          Cons.IH [of "Suc n" acc]
    by simp
qed

lemma extract_pages_empty:
  "extract_pages n ps [] = [] \<longleftrightarrow> (\<forall>p\<in>set ps. \<not> truthy p)"
proof (induction ps arbitrary: n)
  case Nil
  show ?case by simp
next
  case (Cons p ps)
  show ?case
    using Cons.IH [of "Suc n"]
          extract_pages_acc [of "Suc n" ps "[page_marker n, strip (the p), [] ]"]
    by auto
qed

lemma download_first_parsed:
  assumes "truthy url" "j < nat mr" "\<forall>k<j. fetch (the url) k = Raises"
    "fetch (the url) j = Pages ps"
  shows "download_pdf fetch url mr = (page_result ps, spaced_attempts [0 ..< Suc j])"
proof -
  have split: "[0 ..< nat mr] = [0 ..< j] @ j # [Suc j ..< nat mr]"
  proof -
    have "[0 ..< j + (nat mr - j)] = [0 ..< j] @ [j ..< j + (nat mr - j)]"
      by (rule upt_add_eq_append) simp
    then show ?thesis using assms(2) by (simp add: upt_conv_Cons)
  qed
  have "\<forall>k\<in>set [0 ..< j]. fetch (the url) k = Raises \<and> int k < mr - 1"
    using assms(2,3) by auto
  then show ?thesis
    using assms(1,4) attempts_stop [of "[0..<j]" "fetch (the url)" mr j ps]
    by (simp add: download_pdf_def split)
qed

lemma download_all_raise:
  assumes "truthy url" "\<forall>k<nat mr. fetch (the url) k = Raises"
  shows "download_pdf fetch url mr = (None, spaced_attempts [0 ..< nat mr])"
proof -
  have "\<forall>k\<in>set (butlast [0 ..< nat mr]). int k < mr - 1"
    by (cases "nat mr") auto
  moreover have "[0 ..< nat mr] \<noteq> [] \<longrightarrow> \<not> int (last [0 ..< nat mr]) < mr - 1"
    by (cases "nat mr") auto
  ultimately show ?thesis
    using assms attempts_all_raise [of "[0 ..< nat mr]" "fetch (the url)" mr]
    by (simp add: download_pdf_def)
qed

lemma download_bound:
  "length (attempt_numbers (snd (download_pdf fetch url mr))) \<le> nat mr"
  using attempts_bound [of "fetch (the url)" mr "[0 ..< nat mr]"]
  by (simp add: download_pdf_def)

text \<open>
  C1, as the claim states it, fails: an attempt that fetches and parses the PDF but extracts
  no text is not retried. For a scanned PDF and \<open>max_retries = 3\<close>, \<open>download_pdf\<close> returns
  nothing after the first attempt, without waiting.
\<close>

theorem download_pdf_no_retry_on_empty_text:
  "image_only_pdf ''https://example.org/a.pdf'' 0 = Pages [None, Some []]
   \<and> download_pdf image_only_pdf (Some ''https://example.org/a.pdf'') 3 = (None, [Attempt 0])"
  by (simp add: download_pdf_def image_only_pdf_def truthy_def upt_rec)

text \<open>
  C1, amended: \<open>download_pdf\<close> never makes more than \<open>max_retries\<close> attempts. When every
  attempt raises (fetching or parsing fails), it makes exactly \<open>max_retries\<close> attempts, waits
  2 seconds between one attempt and the next, and returns nothing. When the first attempt
  that does not raise extracts no text, it returns nothing at once: that attempt is the
  last one, and no wait follows it.
\<close>

theorem download_pdf_retry_ceiling:
  "length (attempt_numbers (snd (download_pdf fetch url max_retries))) \<le> nat max_retries
   \<and> (truthy url \<and> (\<forall>k<nat max_retries. fetch (the url) k = Raises) \<longrightarrow>
        download_pdf fetch url max_retries
          = (None, spaced_attempts [0 ..< nat max_retries]))
   \<and> (\<forall>j pages. truthy url \<and> j < nat max_retries
          \<and> (\<forall>k<j. fetch (the url) k = Raises)
          \<and> fetch (the url) j = Pages pages \<and> (\<forall>p\<in>set pages. \<not> truthy p) \<longrightarrow>
        download_pdf fetch url max_retries = (None, spaced_attempts [0 ..< Suc j]))"
proof (intro conjI allI impI)
  show "length (attempt_numbers (snd (download_pdf fetch url max_retries))) \<le> nat max_retries"
    by (rule download_bound)
next
  assume "truthy url \<and> (\<forall>k<nat max_retries. fetch (the url) k = Raises)"
  then show "download_pdf fetch url max_retries
               = (None, spaced_attempts [0 ..< nat max_retries])"
    by (simp add: download_all_raise)
next
  fix j pages
  assume h: "truthy url \<and> j < nat max_retries
          \<and> (\<forall>k<j. fetch (the url) k = Raises)
          \<and> fetch (the url) j = Pages pages \<and> (\<forall>p\<in>set pages. \<not> truthy p)"
  then have "page_result pages = None"
    by (simp add: page_result_def extract_pages_empty)
  with h show "download_pdf fetch url max_retries = (None, spaced_attempts [0 ..< Suc j])"
    using download_first_parsed [of url j max_retries fetch pages] by simp
qed

theorem download_pdf_retry_ceiling_witness:
  "download_pdf always_raises (Some ''https://example.org/a.pdf'') 3
     = (None, [Attempt 0, Sleep 2, Attempt 1, Sleep 2, Attempt 2])
   \<and> download_pdf image_only_pdf (Some ''https://example.org/a.pdf'') 3 = (None, [Attempt 0])"
proof -
  have a: "download_pdf always_raises (Some ''https://example.org/a.pdf'') 3
             = (None, spaced_attempts [0 ..< nat 3])"
    using download_pdf_retry_ceiling [of always_raises "Some ''https://example.org/a.pdf''" 3]
    by (simp add: always_raises_def truthy_def)
  have b: "download_pdf image_only_pdf (Some ''https://example.org/a.pdf'') 3
             = (None, spaced_attempts [0 ..< Suc 0])"
  proof -
    have "truthy (Some ''https://example.org/a.pdf'') \<and> 0 < nat 3
          \<and> (\<forall>k<0. image_only_pdf (the (Some ''https://example.org/a.pdf'')) k = Raises)
          \<and> image_only_pdf (the (Some ''https://example.org/a.pdf'')) 0 = Pages [None, Some []]
          \<and> (\<forall>p\<in>set [None, Some []]. \<not> truthy p)"
      by (simp add: image_only_pdf_def truthy_def)
    with download_pdf_retry_ceiling [of image_only_pdf "Some ''https://example.org/a.pdf''" 3]
    show ?thesis by blast
  qed
  show ?thesis using a b by (simp add: upt_rec)
qed

section \<open>The layout of the extracted text\<close>

lemma extract_pages_lines:
  "extract_pages n ps [] =
     concat (map page_lines (filter (\<lambda>np. truthy (snd np)) (zip [n ..< n + length ps] ps)))"
proof (induction ps arbitrary: n)
  case Nil
  show ?case by simp
next
  case (Cons p ps)
  have "[n ..< n + length (p # ps)] = n # [Suc n ..< Suc n + length ps]"
    using upt_conv_Cons [of n "n + length (p # ps)"] by simp
  then show ?case
    using Cons.IH [of "Suc n"]
          extract_pages_acc [of "Suc n" ps "[page_marker n, strip (the p), [] ]"]
    by (simp add: page_lines_def)
qed

lemma page_result_rendered:
  "\<exists>p\<in>set pages. truthy p \<Longrightarrow> page_result pages = Some (rendered_pages pages)"
  using extract_pages_empty [of 1 pages] extract_pages_lines [of 1 pages]
  by (auto simp: page_result_def rendered_pages_def numbered_pages_def Let_def)

text \<open>
  C6: when the first attempt that does not raise reaches a PDF in which some page yields
  text, the text returned is the lines, joined by newlines, of one block per page that
  yields non-empty text, in page order: the marker \<open>--- Page N ---\<close> with \<open>N\<close> the position
  of the page among all pages, counted from 1, then the trimmed text of the page, then an
  empty line. Pages that yield no text contribute nothing.
\<close>

theorem extracted_text_layout:
  "truthy url \<and> j < nat max_retries \<and> (\<forall>k<j. fetch (the url) k = Raises)
   \<and> fetch (the url) j = Pages pages \<and> (\<exists>p\<in>set pages. truthy p) \<longrightarrow>
   fst (download_pdf fetch url max_retries) = Some (rendered_pages pages)"
  using download_first_parsed [of url j max_retries fetch pages] page_result_rendered [of pages]
  by auto

theorem extracted_text_layout_witness:
  "fst (download_pdf three_page_pdf (Some ''https://example.org/b.pdf'') 3)
     = Some (''--- Page 1 ---'' @ newline @ ''Alpha'' @ newline @ newline
             @ ''--- Page 3 ---'' @ newline @ ''Beta'' @ newline)"
proof -
  have "fst (download_pdf three_page_pdf (Some ''https://example.org/b.pdf'') 3)
          = Some (rendered_pages [Some '' Alpha '', None, Some ''Beta''])"
    using extracted_text_layout
            [of "Some ''https://example.org/b.pdf''" 1 3 three_page_pdf
                "[Some '' Alpha '', None, Some ''Beta'']"]
    by (simp add: three_page_pdf_def truthy_def)
  then show ?thesis
    by (simp add: rendered_pages_def numbered_pages_def page_lines_def upt_rec truthy_def
          strip_def isspace_def page_marker_def str_nat.simps)
qed


section \<open>The search filter\<close>

lemma error_is_TypeError: "(err :: error) = TypeError"
  by (cases err)

lemma title_prefix_titled: "titled_text doc \<Longrightarrow> \<exists>logged. title_prefix doc = Inr logged"
  by (cases "title doc") (auto simp: titled_text_def title_prefix_def)

lemma title_prefix_null: "title doc = Null \<Longrightarrow> title_prefix doc = Inl TypeError"
  by (simp add: title_prefix_def)

lemma title_prefix_Inr: "title_prefix doc = Inr logged \<Longrightarrow> titled_text doc"
  by (cases "title doc") (auto simp: titled_text_def title_prefix_def)

lemma filter_results_filter:
  "\<forall>doc\<in>set results. truthy (get (pdf_url doc)) \<longrightarrow> titled_text doc \<Longrightarrow>
   filter_results results acc = Inr (acc @ filter qualifies results)"
proof (induction results arbitrary: acc)
  case Nil
  show ?case by simp
next
  case (Cons doc results)
  have rest: "\<And>acc'. filter_results results acc' = Inr (acc' @ filter qualifies results)"
    using Cons.IH Cons.prems by simp
  show ?case
  proof (cases "truthy (get (pdf_url doc))")
    case False
    then have "\<not> qualifies doc" by (simp add: qualifies_def)
    then show ?thesis using False rest by simp
  next
    case True
    then obtain logged where l: "title_prefix doc = Inr logged"
      using Cons.prems title_prefix_titled by auto
    have "qualifies doc \<longleftrightarrow> ai_relevant doc"
      using True by (simp add: qualifies_def ai_relevant_def list_ex_iff)
    then show ?thesis
      using True l rest by simp
  qed
qed

lemma filter_results_raises:
  "\<exists>doc\<in>set results. truthy (get (pdf_url doc)) \<and> title doc = Null \<Longrightarrow>
   filter_results results acc = Inl TypeError"
proof (induction results arbitrary: acc)
  case Nil
  then show ?case by simp
next
  case (Cons doc results)
  show ?case
  proof (cases "truthy (get (pdf_url doc)) \<and> title doc = Null")
    case True
    then show ?thesis by (simp add: title_prefix_null)
  next
    case False
    then have rest: "\<And>acc'. filter_results results acc' = Inl TypeError"
      using Cons.IH Cons.prems by auto
    show ?thesis
      by (cases "title_prefix doc") (simp_all add: rest error_is_TypeError)
  qed
qed

lemma filter_results_titled:
  "filter_results results acc = Inr out \<Longrightarrow> \<forall>d\<in>set acc. titled_text d \<Longrightarrow>
   \<forall>d\<in>set out. titled_text d"
proof (induction results arbitrary: acc)
  case Nil
  then show ?case by simp
next
  case (Cons doc results)
  show ?case
  proof (cases "truthy (get (pdf_url doc))")
    case False
    then show ?thesis using Cons by simp
  next
    case True
    show ?thesis
    proof (cases "title_prefix doc")
      case (Inl err)
      then show ?thesis using True Cons.prems by (simp split: if_splits)
    next
      case (Inr logged)
      then have t: "titled_text doc" by (rule title_prefix_Inr)
      show ?thesis
      proof (cases "ai_relevant doc")
        case rel: True
        have "filter_results results (acc @ [doc]) = Inr out"
          using Cons.prems(1) True Inr rel by simp
        moreover have "\<forall>d\<in>set (acc @ [doc]). titled_text d"
          using Cons.prems(2) t by simp
        ultimately show ?thesis by (rule Cons.IH)
      next
        case nrel: False
        have "filter_results results acc = Inr out"
          using Cons.prems(1) True Inr nrel by simp
        then show ?thesis using Cons.prems(2) by (rule Cons.IH)
      qed
    qed
  qed
qed

lemma set_slice_to: "set (slice_to xs n) \<subseteq> set xs"
  by (auto simp: slice_to_def dest: in_set_takeD)

lemma search_documents_titled:
  "search_documents http md t = Inr docs \<Longrightarrow> \<forall>d\<in>set docs. titled_text d"
proof -
  assume s: "search_documents http md t = Inr docs"
  show ?thesis
  proof (cases "api_request http t (min md 100)")
    case None
    then show ?thesis using s by (simp add: search_documents_def)
  next
    case (Some body)
    show ?thesis
    proof (cases body)
      case Falsy
      then show ?thesis using s Some by (simp add: search_documents_def)
    next
      case (Object r)
      let ?results = "case r of None \<Rightarrow> [] | Some results \<Rightarrow> results"
      from s Some Object obtain out where
        f: "filter_results ?results [] = Inr out" and d: "docs = slice_to out md"
        by (auto simp: search_documents_def split: sum.splits)
      have "\<forall>d\<in>set out. titled_text d"
        using filter_results_titled [OF f] by simp
      then show ?thesis using d set_slice_to [of out md] by auto
    qed
  qed
qed

lemma starts_with_iff: "starts_with k s \<longleftrightarrow> (\<exists>post. s = k @ post)"
  by (induction k s rule: starts_with.induct) auto

lemma contains_iff: "contains k s \<longleftrightarrow> (\<exists>pre post. s = pre @ k @ post)"
proof (induction s)
  case Nil
  show ?case by auto
next
  case (Cons c cs)
  show ?case
  proof
    assume "contains k (c # cs)"
    then consider "starts_with k (c # cs)" | "contains k cs" by auto
    then show "\<exists>pre post. c # cs = pre @ k @ post"
    proof cases
      case 1
      then obtain post where "c # cs = k @ post" by (auto simp: starts_with_iff)
      then have "c # cs = [] @ k @ post" by simp
      then show ?thesis by blast
    next
      case 2
      then obtain pre post where "cs = pre @ k @ post" using Cons.IH by auto
      then have "c # cs = (c # pre) @ k @ post" by simp
      then show ?thesis by blast
    qed
  next
    assume "\<exists>pre post. c # cs = pre @ k @ post"
    then obtain pre post where e: "c # cs = pre @ k @ post" by auto
    show "contains k (c # cs)"
    proof (cases pre)
      case Nil
      with e have "\<exists>post. c # cs = k @ post" by auto
      then have "starts_with k (c # cs)" by (simp only: starts_with_iff)
      then show ?thesis by simp
    next
      case (Cons a pre')
      then have "cs = pre' @ k @ post" using e by simp
      then show ?thesis using Cons.IH by auto
    qed
  qed
qed

lemma lower_char_idem: "lower_char (lower_char c) = lower_char c"
proof -
  have "(of_char c :: nat) < 256" by simp
  then show ?thesis
    by (auto simp: lower_char_def Let_def)
qed

lemma lower_idem: "lower (lower s) = lower s"
  by (simp add: lower_def lower_char_idem)

text \<open>
  Outside the records and bounds the specification describes, the code does something else:
  a record with a PDF URL whose title is \<open>null\<close> makes the search raise at its log line, and
  a negative \<open>max_docs\<close> makes the slice drop records from the end.
\<close>

lemma search_documents_null_title:
  "http term (min max_docs 100) = Returned (Object (Some results)) \<Longrightarrow>
   \<exists>doc\<in>set results. truthy (get (pdf_url doc)) \<and> title doc = Null \<Longrightarrow>
   search_documents http max_docs term = Inl TypeError"
  by (simp add: search_documents_def api_request_def filter_results_raises)

lemma search_documents_untitled:
  "search_documents (held [untitled]) 10 ''machine learning'' = Inl TypeError"
  by code_simp

lemma search_documents_negative:
  "http term (min max_docs 100) = Returned (Object (Some results)) \<Longrightarrow>
   \<forall>doc\<in>set results. truthy (get (pdf_url doc)) \<longrightarrow> titled_text doc \<Longrightarrow> max_docs < 0 \<Longrightarrow>
   search_documents http max_docs term
     = Inr (take (length (filter qualifies results) - nat (- max_docs)) (filter qualifies results))"
  by (auto simp: search_documents_def api_request_def slice_to_def filter_results_filter
        nat_diff_distrib' intro!: arg_cong2 [where f = take])

text \<open>
  C3: for a count \<open>max_docs \<ge> 0\<close> and every result sequence of the API whose records with
  a PDF URL have a title that is text (or no title), \<open>search_documents\<close> returns the first
  \<open>max_docs\<close> of the records that have a non-empty PDF URL and whose lowercased title and
  abstract, joined by a space, contain a keyword of the fixed set, in the original order.
  The match is case-insensitive: replacing a title by its lowercased form never changes
  whether a record is kept.
\<close>

theorem search_documents_filter:
  "(http term (min max_docs 100) = Returned (Object (Some results)) \<and> 0 \<le> max_docs
      \<and> (\<forall>doc\<in>set results. truthy (get (pdf_url doc)) \<longrightarrow> titled_text doc) \<longrightarrow>
      search_documents http max_docs term = Inr (take (nat max_docs) (filter qualifies results))
      \<and> length (take (nat max_docs) (filter qualifies results)) \<le> nat max_docs)
   \<and> qualifies (doc\<lparr>title := Text t\<rparr>) = qualifies (doc\<lparr>title := Text (lower t)\<rparr>)"
  by (auto simp: search_documents_def api_request_def slice_to_def filter_results_filter
        qualifies_def content_of_def lower_idem)

theorem search_documents_filter_witness:
  "search_documents five_results 2 ''artificial intelligence''
     = Inr [sample_doc ''2024-00001'' ''Artificial Intelligence Risk'',
            sample_doc ''2024-00004'' ''Safe artificial intelligence'']
   \<and> search_documents five_results 10 ''artificial intelligence''
     = Inr [sample_doc ''2024-00001'' ''Artificial Intelligence Risk'',
            sample_doc ''2024-00004'' ''Safe artificial intelligence'',
            sample_doc ''2024-00005'' ''DEEP LEARNING in audits'']"
proof -
  have kept: "filter qualifies sample_results
      = [sample_doc ''2024-00001'' ''Artificial Intelligence Risk'',
         sample_doc ''2024-00004'' ''Safe artificial intelligence'',
         sample_doc ''2024-00005'' ''DEEP LEARNING in audits'']"
    by code_simp
  have "list_all (\<lambda>doc. truthy (get (pdf_url doc)) \<longrightarrow> titled_text doc) sample_results"
    by code_simp
  then have titles: "\<forall>doc\<in>set sample_results. truthy (get (pdf_url doc)) \<longrightarrow> titled_text doc"
    by (simp only: list_all_iff)
  have a: "search_documents five_results 2 ''artificial intelligence''
             = Inr (take (nat 2) (filter qualifies sample_results))"
    using search_documents_filter [of five_results "''artificial intelligence''" 2 sample_results]
          titles
    by (simp add: five_results_def)
  have b: "search_documents five_results 10 ''artificial intelligence''
             = Inr (take (nat 10) (filter qualifies sample_results))"
    using search_documents_filter [of five_results "''artificial intelligence''" 10 sample_results]
          titles
    by (simp add: five_results_def)
  show ?thesis using a b by (simp add: kept)
qed

text \<open>
  C8: when the GET of \<open>api_request\<close> raises (a transport error, or the error that
  \<open>raise_for_status\<close> raises for the status), \<open>api_request\<close> returns \<open>None\<close>,
  \<open>search_documents\<close> returns the empty list without raising, and the run that called it
  ends in the ordinary way, reporting failure with nothing processed.
\<close>

theorem search_request_failure:
  "http_json e term (min max_docs 100) = RequestError \<longrightarrow>
     api_request (http_json e) term (min max_docs 100) = None
     \<and> search_documents (http_json e) max_docs term = Inr []
     \<and> run e max_docs term = (Inr False, [])"
  by (simp add: search_documents_def api_request_def run_def)

theorem search_request_failure_witness:
  "http_json offline ''AI safety'' (min 10 100) = RequestError
   \<and> api_request (http_json offline) ''AI safety'' (min 10 100) = None
   \<and> search_documents (http_json offline) 10 ''AI safety'' = Inr []
   \<and> run offline 10 ''AI safety'' = (Inr False, [])"
proof -
  have "http_json offline ''AI safety'' (min 10 100) = RequestError"
    by (simp add: offline_def api_down_def)
  then show ?thesis
    using search_request_failure [of offline "''AI safety''" 10] by simp
qed

section \<open>The file name\<close>

lemma collapse_runs_set:
  "set (collapse_runs s) \<subseteq> {c \<in> set s. \<not> is_sep c} \<union> {hyphen}"
proof (induction s rule: collapse_runs.induct)
  case 1
  show ?case by simp
next
  case (2 c cs)
  show ?case
  proof (cases "is_sep c")
    case True
    then show ?thesis using 2(1) by (auto dest: set_dropWhileD)
  next
    case False
    then show ?thesis using 2(2) by auto
  qed
qed

lemma collapse_runs_hd:
  "s \<noteq> [] \<Longrightarrow> collapse_runs s \<noteq> [] \<and> hd (collapse_runs s) = (if is_sep (hd s) then hyphen else hd s)"
  by (cases s) auto

lemma single_hyphens_Cons:
  "single_hyphens (a # xs) \<longleftrightarrow> (xs = [] \<or> (\<not> (a = hyphen \<and> hd xs = hyphen) \<and> single_hyphens xs))"
  by (cases xs) auto

lemma collapse_runs_single: "single_hyphens (collapse_runs s)"
proof (induction s rule: collapse_runs.induct)
  case 1
  show ?case by simp
next
  case (2 c cs)
  show ?case
  proof (cases "is_sep c")
    case True
    let ?r = "dropWhile is_sep cs"
    have "collapse_runs ?r = [] \<or> hd (collapse_runs ?r) \<noteq> hyphen"
    proof (cases "?r = []")
      case True
      then have "collapse_runs ?r = []" by (simp only: collapse_runs.simps)
      then show ?thesis by (rule disjI1)
    next
      case False
      then have ns: "\<not> is_sep (hd ?r)" using hd_dropWhile by blast
      have "hd (collapse_runs ?r) = hd ?r" using collapse_runs_hd [OF False] ns by simp
      moreover have "hd ?r \<noteq> hyphen" using ns by (auto simp: is_sep_def)
      ultimately show ?thesis by simp
    qed
    then show ?thesis using True 2(1) by (simp add: single_hyphens_Cons)
  next
    case False
    then have "c \<noteq> hyphen" by (auto simp: is_sep_def)
    then show ?thesis using False 2(2) by (simp add: single_hyphens_Cons)
  qed
qed

lemma single_hyphens_take: "single_hyphens xs \<Longrightarrow> single_hyphens (take n xs)"
proof (induction xs arbitrary: n)
  case Nil
  show ?case by simp
next
  case (Cons a xs)
  show ?case
  proof (cases n)
    case 0
    then show ?thesis by simp
  next
    case (Suc m)
    show ?thesis
    proof (cases "take m xs = []")
      case True
      have one: "take (Suc m) (a # xs) = [a]" by (simp only: take_Suc_Cons True)
      have "single_hyphens [a]" by simp
      then show ?thesis by (simp only: Suc one)
    next
      case False
      then have "xs \<noteq> []" "0 < m" by auto
      then have "hd (take m xs) = hd xs" by (cases xs; cases m) auto
      then show ?thesis
        using Cons.prems Cons.IH [of m] Suc \<open>xs \<noteq> []\<close> by (simp add: single_hyphens_Cons)
    qed
  qed
qed

lemma safe_title_chars: "c \<in> set (safe_title t) \<Longrightarrow> name_char c"
proof -
  assume "c \<in> set (safe_title t)"
  then have "c \<in> set (collapse_runs (strip_unsafe t))"
    by (auto simp: safe_title_def dest: in_set_takeD)
  then have "c = hyphen \<or> (c \<in> set (strip_unsafe t) \<and> \<not> is_sep c)"
    using collapse_runs_set [of "strip_unsafe t"] by auto
  then show ?thesis by (auto simp: strip_unsafe_def is_sep_def name_char_def)
qed

lemma filename_of_null_title: "title doc = Null \<Longrightarrow> filename_of doc = Inl TypeError"
  by (simp add: filename_of_def)

lemma filename_of_text:
  "get_or (title doc) ''Untitled Document'' = Some t \<Longrightarrow>
   filename_of doc
     = Inr (fmt (get_or (publication_date doc) ''unknown'') @ ''-'' @ safe_title t @ ''.txt'')"
  by (simp add: filename_of_def)

lemma filename_of_Inr:
  "filename_of doc = Inr name \<Longrightarrow>
   \<exists>t. get_or (title doc) ''Untitled Document'' = Some t
       \<and> name = fmt (get_or (publication_date doc) ''unknown'') @ ''-'' @ safe_title t @ ''.txt''"
  by (auto simp: filename_of_def split: option.splits)

text \<open>
  C4: for every title (a string, or the default title of a record without one) and every
  publication date, the file name is the date as the f-string writes it (\<open>unknown\<close> when
  missing), a hyphen, the sanitised title, and \<open>.txt\<close>, where the sanitised title is the
  title without the characters that are neither word characters, whitespace nor hyphens,
  with every run of whitespace and hyphens replaced by one hyphen, cut to 50 characters.
  The sanitised title contains only word characters and hyphens, never two hyphens in a
  row; the file name is at most \<open>len(date) + 1 + 50 + 4\<close> characters long; and for a date
  of word characters and hyphens, as an ISO date is, the file name before \<open>.txt\<close> contains
  only word characters and hyphens.
\<close>

theorem filename_shape:
  "(get_or (title doc) ''Untitled Document'' = Some t \<longrightarrow>
      filename_of doc
        = Inr (fmt (get_or (publication_date doc) ''unknown'') @ ''-''
                 @ take 50 (collapse_runs (strip_unsafe t)) @ ''.txt''))
   \<and> (\<forall>c\<in>set (safe_title t). name_char c)
   \<and> single_hyphens (safe_title t)
   \<and> length (safe_title t) \<le> 50
   \<and> (filename_of doc = Inr name \<longrightarrow>
        length name \<le> length (fmt (get_or (publication_date doc) ''unknown'')) + 1 + 50 + 4)
   \<and> (filename_of doc = Inr name
        \<and> (\<forall>c\<in>set (fmt (get_or (publication_date doc) ''unknown'')). name_char c) \<longrightarrow>
        (\<exists>stem. name = stem @ ''.txt'' \<and> (\<forall>c\<in>set stem. name_char c)))"
proof (intro conjI impI)
  assume "get_or (title doc) ''Untitled Document'' = Some t"
  then show "filename_of doc
        = Inr (fmt (get_or (publication_date doc) ''unknown'') @ ''-''
                 @ take 50 (collapse_runs (strip_unsafe t)) @ ''.txt'')"
    by (simp add: filename_of_text safe_title_def)
next
  show "\<forall>c\<in>set (safe_title t). name_char c"
    by (simp add: safe_title_chars)
  show "single_hyphens (safe_title t)"
    by (simp add: safe_title_def single_hyphens_take collapse_runs_single)
  show "length (safe_title t) \<le> 50"
    by (simp add: safe_title_def)
next
  assume "filename_of doc = Inr name"
  then obtain u where "name = fmt (get_or (publication_date doc) ''unknown'') @ ''-''
                                @ safe_title u @ ''.txt''"
    using filename_of_Inr by blast
  then show "length name \<le> length (fmt (get_or (publication_date doc) ''unknown'')) + 1 + 50 + 4"
    by (simp add: safe_title_def)
next
  assume h: "filename_of doc = Inr name
        \<and> (\<forall>c\<in>set (fmt (get_or (publication_date doc) ''unknown'')). name_char c)"
  then obtain u where
    n: "name = fmt (get_or (publication_date doc) ''unknown'') @ ''-'' @ safe_title u @ ''.txt''"
    using filename_of_Inr by blast
  let ?stem = "fmt (get_or (publication_date doc) ''unknown'') @ ''-'' @ safe_title u"
  have "name = ?stem @ ''.txt''" using n by simp
  moreover have "\<forall>c\<in>set ?stem. name_char c"
    using h safe_title_chars by (auto simp: name_char_def hyphen_def)
  ultimately show "\<exists>stem. name = stem @ ''.txt'' \<and> (\<forall>c\<in>set stem. name_char c)"
    by blast
qed

theorem filename_shape_witness:
  "filename_of titled = Inr ''2024-01-15-AI-Risk-Rules-Safety-2024-update.txt''
   \<and> list_all name_char ''2024-01-15-AI-Risk-Rules-Safety-2024-update''
   \<and> length ''2024-01-15-AI-Risk-Rules-Safety-2024-update.txt'' \<le> 10 + 1 + 50 + 4"
proof -
  have t: "get_or (title titled) ''Untitled Document''
             = Some ''AI Risk: Rules & Safety -- 2024 update''"
    by code_simp
  have d: "fmt (get_or (publication_date titled) ''unknown'') = ''2024-01-15''"
    by code_simp
  have c: "take 50 (collapse_runs (strip_unsafe ''AI Risk: Rules & Safety -- 2024 update''))
             = ''AI-Risk-Rules-Safety-2024-update''"
    by code_simp
  note shape = filename_shape [of titled "''AI Risk: Rules & Safety -- 2024 update''"
                                 "''2024-01-15-AI-Risk-Rules-Safety-2024-update.txt''"]
  from shape t have "filename_of titled
      = Inr (fmt (get_or (publication_date titled) ''unknown'') @ ''-''
               @ take 50 (collapse_runs (strip_unsafe ''AI Risk: Rules & Safety -- 2024 update''))
               @ ''.txt'')"
    by blast
  then have f: "filename_of titled = Inr ''2024-01-15-AI-Risk-Rules-Safety-2024-update.txt''"
    by (simp add: d c)
  have "list_all name_char ''2024-01-15''"
    by code_simp
  then have ok: "\<forall>c\<in>set (fmt (get_or (publication_date titled) ''unknown'')). name_char c"
    by (simp only: d list_all_iff)
  from shape f ok obtain stem where
    s: "''2024-01-15-AI-Risk-Rules-Safety-2024-update.txt'' = stem @ ''.txt''"
       "\<forall>c\<in>set stem. name_char c"
    by blast
  have "''2024-01-15-AI-Risk-Rules-Safety-2024-update.txt''
          = ''2024-01-15-AI-Risk-Rules-Safety-2024-update'' @ ''.txt''"
    by simp
  with s(1) have "stem = ''2024-01-15-AI-Risk-Rules-Safety-2024-update''"
    by (simp only: append_same_eq)
  with s(2) have chars: "list_all name_char ''2024-01-15-AI-Risk-Rules-Safety-2024-update''"
    by (simp only: list_all_iff)
  from shape f have "length ''2024-01-15-AI-Risk-Rules-Safety-2024-update.txt''
      \<le> length (fmt (get_or (publication_date titled) ''unknown'')) + 1 + 50 + 4"
    by blast
  then have "length ''2024-01-15-AI-Risk-Rules-Safety-2024-update.txt'' \<le> 10 + 1 + 50 + 4"
    by (simp add: d)
  with f chars show ?thesis by simp
qed

section \<open>The file body\<close>

lemma titled_text_get_or:
  "titled_text doc \<longleftrightarrow> (\<exists>t. get_or (title doc) ''Untitled Document'' = Some t)"
  by (cases "title doc") (auto simp: titled_text_def)

lemma document_text_layout:
  "document_text timestamp doc pdf_content
     = unlines (header_lines timestamp doc) @ abstract_block doc @ content_block pdf_content"
  by (simp add: document_text_def header_of_def unlines_def header_lines_def
        abstract_block_def content_block_def Let_def)

lemma save_document_titled:
  "get_or (title doc) ''Untitled Document'' = Some t \<Longrightarrow>
   save_document cw timestamp doc pdf_content
     = Inr \<lparr>w_filename = fmt (get_or (publication_date doc) ''unknown'') @ ''-''
                            @ safe_title t @ ''.txt'',
            w_text = unlines (header_lines timestamp doc) @ abstract_block doc
                       @ content_block pdf_content,
            w_saved = cw (fmt (get_or (publication_date doc) ''unknown'') @ ''-''
                            @ safe_title t @ ''.txt'')\<rparr>"
  by (simp add: save_document_def filename_of_text document_text_layout)

lemma save_document_null_title:
  "title doc = Null \<Longrightarrow> save_document cw timestamp doc pdf_content = Inl TypeError"
  by (simp add: save_document_def filename_of_null_title)



text \<open>
  C9: two calls of the writer for the same record and the same extracted text, at different
  times, write the same text but for the time on the line \<open>Downloaded:\<close>; they use the
  same file name and succeed or fail alike. For a record whose title is \<open>null\<close> both calls
  raise the same error before any file is opened.
\<close>

theorem save_twice_same_but_timestamp:
  "(save_document cw ts1 doc pdf_content = Inl TypeError
      \<and> save_document cw ts2 doc pdf_content = Inl TypeError)
   \<or> (\<exists>pre post w1 w2.
        save_document cw ts1 doc pdf_content = Inr w1
      \<and> save_document cw ts2 doc pdf_content = Inr w2
      \<and> w_text w1 = pre @ ''Downloaded: '' @ ts1 @ newline @ post
      \<and> w_text w2 = pre @ ''Downloaded: '' @ ts2 @ newline @ post
      \<and> w_filename w1 = w_filename w2
      \<and> w_saved w1 = w_saved w2)"
proof (cases "title doc = Null")
  case True
  then show ?thesis by (simp add: save_document_null_title)
next
  case False
  then obtain t where t: "get_or (title doc) ''Untitled Document'' = Some t"
    using titled_text_get_or [of doc] by (auto simp: titled_text_def)
  let ?pre = "unlines (take 7 (header_lines [] doc))"
  let ?post = "unlines [divider, []] @ abstract_block doc @ content_block pdf_content"
  have split: "\<And>ts. unlines (header_lines ts doc) @ abstract_block doc @ content_block pdf_content
          = ?pre @ ''Downloaded: '' @ ts @ newline @ ?post"
    by (simp add: unlines_def header_lines_def)
  have "\<exists>w1 w2. save_document cw ts1 doc pdf_content = Inr w1
      \<and> save_document cw ts2 doc pdf_content = Inr w2
      \<and> w_text w1 = ?pre @ ''Downloaded: '' @ ts1 @ newline @ ?post
      \<and> w_text w2 = ?pre @ ''Downloaded: '' @ ts2 @ newline @ ?post
      \<and> w_filename w1 = w_filename w2
      \<and> w_saved w1 = w_saved w2"
    by (simp add: save_document_titled [OF t] split)
  then show ?thesis by blast
qed

theorem save_twice_same_but_timestamp_witness:
  "text_of (save_document (\<lambda>name. True) ''2024-02-01 10:00:00'' titled None) \<noteq> None
   \<and> map_option length (text_of (save_document (\<lambda>name. True) ''2024-02-01 10:00:00'' titled None))
     = map_option length (text_of (save_document (\<lambda>name. True) ''2024-02-01 10:00:07'' titled None))"
proof -
  have r: "save_document (\<lambda>name. True) ''2024-02-01 10:00:00'' titled None \<noteq> Inl TypeError"
    by code_simp
  from save_twice_same_but_timestamp
         [of "\<lambda>name. True" "''2024-02-01 10:00:00''" titled None "''2024-02-01 10:00:07''"] r
  obtain pre post w1 w2 where
    p: "save_document (\<lambda>name. True) ''2024-02-01 10:00:00'' titled None = Inr w1"
       "save_document (\<lambda>name. True) ''2024-02-01 10:00:07'' titled None = Inr w2"
       "w_text w1 = pre @ ''Downloaded: '' @ ''2024-02-01 10:00:00'' @ newline @ post"
       "w_text w2 = pre @ ''Downloaded: '' @ ''2024-02-01 10:00:07'' @ newline @ post"
    by blast
  show ?thesis by (simp add: text_of_def p)
qed

section \<open>Deduplication across search terms\<close>

lemma merge_map_of:
  "map_of (merge_documents al docs) i =
     (case map_of al i of Some d \<Rightarrow> Some d
      | None \<Rightarrow> if i = [] then None else find (has_id i) docs)"
proof (induction docs arbitrary: al)
  case Nil
  show ?case by (auto split: option.splits dest: map_of_SomeD)
next
  case (Cons doc docs)
  show ?case
    by (auto simp: Cons.IH has_id_def truthy_def Let_def map_add_def split: option.splits)
qed

lemma find_app:
  "find P (xs @ ys) = (case find P xs of Some d \<Rightarrow> Some d | None \<Rightarrow> find P ys)"
  by (induction xs) auto

lemma search_all_map_of:
  "search_all http md al terms = Inr r \<Longrightarrow>
   map_of r i =
     (case map_of al i of Some d \<Rightarrow> Some d
      | None \<Rightarrow> if i = [] then None
                else find (has_id i)
                       (concat (map (\<lambda>t. returned (search_documents http md t)) terms)))"
proof (induction terms arbitrary: al)
  case Nil
  then show ?case by (auto split: option.splits)
next
  case (Cons t ts)
  from Cons.prems obtain docs where
    d: "search_documents http md t = Inr docs"
    and r: "search_all http md (merge_documents al docs) ts = Inr r"
    by (auto split: sum.splits)
  show ?case
    using Cons.IH [OF r] d
    by (auto simp: merge_map_of find_app returned_def split: option.splits)
qed

lemma search_all_returns:
  "\<forall>t\<in>set terms. search_documents http md t \<noteq> Inl TypeError \<Longrightarrow>
   \<exists>r. search_all http md al terms = Inr r"
proof (induction terms arbitrary: al)
  case Nil
  show ?case by simp
next
  case (Cons t ts)
  then obtain docs where "search_documents http md t = Inr docs"
    by (cases "search_documents http md t") (auto simp: error_is_TypeError)
  then show ?case using Cons by simp
qed

lemma merge_keyed: "keyed al \<Longrightarrow> keyed (merge_documents al docs)"
proof (induction docs arbitrary: al)
  case Nil
  then show ?case by simp
next
  case (Cons doc docs)
  have "keyed (let doc_id = get (document_number doc)
               in if truthy doc_id \<and> map_of al (the doc_id) = None
                  then al @ [(the doc_id, doc)] else al)"
    using Cons.prems
    by (auto simp: keyed_def Let_def truthy_def map_of_eq_None_iff split: option.splits)
  then show ?case using Cons.IH by simp
qed

lemma search_all_keyed:
  "search_all http md al terms = Inr r \<Longrightarrow> keyed al \<Longrightarrow> keyed r"
proof (induction terms arbitrary: al)
  case Nil
  then show ?case by simp
next
  case (Cons t ts)
  from Cons.prems(1) obtain docs where
    r: "search_all http md (merge_documents al docs) ts = Inr r"
    by (auto split: sum.splits)
  show ?case using Cons.IH [OF r] Cons.prems(2) by (simp add: merge_keyed)
qed

lemma keyed_filter:
  "keyed al \<Longrightarrow>
   filter (has_id i) (map snd al) = (case map_of al i of None \<Rightarrow> [] | Some d \<Rightarrow> [d])"
proof (induction al)
  case Nil
  show ?case by simp
next
  case (Cons kd al)
  obtain k d where kd: "kd = (k, d)" by (cases kd)
  have tl: "keyed al" using Cons.prems by (auto simp: keyed_def)
  have dn: "get (document_number d) = Some k" using Cons.prems kd by (auto simp: keyed_def)
  show ?case
  proof (cases "i = k")
    case True
    have "map_of al k = None" using Cons.prems kd by (auto simp: keyed_def map_of_eq_None_iff)
    then have "filter (has_id k) (map snd al) = []" using Cons.IH [OF tl] True by simp
    moreover have "has_id k d" using dn by (simp add: has_id_def)
    ultimately show ?thesis using True kd by simp
  next
    case False
    then have "\<not> has_id i d" using dn by (auto simp: has_id_def)
    then show ?thesis using Cons.IH [OF tl] kd False by simp
  qed
qed

lemma find_concat_first:
  "a < length xss \<Longrightarrow> \<exists>x\<in>set (xss ! a). P x \<Longrightarrow>
   \<exists>d c. find P (concat xss) = Some d \<and> c \<le> a \<and> find P (xss ! c) = Some d
         \<and> (\<forall>c'<c. \<not> (\<exists>x\<in>set (xss ! c'). P x))"
proof (induction xss arbitrary: a)
  case Nil
  then show ?case by simp
next
  case (Cons xs xss)
  show ?case
  proof (cases "find P xs")
    case (Some d)
    then have "find P (concat (xs # xss)) = Some d \<and> (0::nat) \<le> a
               \<and> find P ((xs # xss) ! 0) = Some d
               \<and> (\<forall>c'<0. \<not> (\<exists>x\<in>set ((xs # xss) ! c'). P x))"
      by (simp add: find_app)
    then show ?thesis by blast
  next
    case None
    then have nx: "\<not> (\<exists>x\<in>set xs. P x)" by (simp add: find_None_iff)
    then obtain a' where a': "a = Suc a'" using Cons.prems by (cases a) auto
    then obtain d c where
      dc: "find P (concat xss) = Some d" "c \<le> a'" "find P (xss ! c) = Some d"
          "\<forall>c'<c. \<not> (\<exists>x\<in>set (xss ! c'). P x)"
      using Cons.IH [of a'] Cons.prems by auto
    have "\<forall>c'<Suc c. \<not> (\<exists>x\<in>set ((xs # xss) ! c'). P x)"
    proof (intro allI impI)
      fix c' assume "c' < Suc c"
      then show "\<not> (\<exists>x\<in>set ((xs # xss) ! c'). P x)"
        using nx dc(4) by (cases c') auto
    qed
    then have "find P (concat (xs # xss)) = Some d \<and> Suc c \<le> a
               \<and> find P ((xs # xss) ! Suc c) = Some d
               \<and> (\<forall>c'<Suc c. \<not> (\<exists>x\<in>set ((xs # xss) ! c'). P x))"
      using dc None a' by (simp add: find_app)
    then show ?thesis by blast
  qed
qed

lemma unique_documents_keyed:
  "unique_documents e md = Inr unique \<Longrightarrow>
   \<exists>al. search_all (http_json e) md [] search_terms = Inr al \<and> unique = map snd al \<and> keyed al"
proof -
  assume u: "unique_documents e md = Inr unique"
  then obtain al where
    al: "search_all (http_json e) md [] search_terms = Inr al" "unique = map snd al"
    by (auto simp: unique_documents_def split: sum.splits)
  have "keyed al" by (rule search_all_keyed [OF al(1)]) (simp add: keyed_def)
  with al show ?thesis by blast
qed

lemma unique_documents_filter:
  "unique_documents e md = Inr unique \<Longrightarrow>
   filter (has_id i) unique =
     (if i = [] then []
      else case find (has_id i)
                  (concat (map (\<lambda>t. returned (search_documents (http_json e) md t))
                             search_terms)) of
             None \<Rightarrow> [] | Some d \<Rightarrow> [d])"
proof -
  assume "unique_documents e md = Inr unique"
  then obtain al where
    al: "search_all (http_json e) md [] search_terms = Inr al" "unique = map snd al" "keyed al"
    using unique_documents_keyed by blast
  show ?thesis
    unfolding al(2) keyed_filter [OF al(3)] search_all_map_of [OF al(1)]
    by simp
qed

lemma unique_documents_returns:
  "\<forall>t\<in>set search_terms. search_documents (http_json e) md t \<noteq> Inl TypeError \<Longrightarrow>
   \<exists>unique. unique_documents e md = Inr unique"
  using search_all_returns [of search_terms "http_json e" md "[]"]
  by (auto simp: unique_documents_def)

text \<open>
  C2, as the claim states it, fails for the empty identifier: a record whose
  \<open>document_number\<close> is the empty string is skipped by the guard \<open>if doc_id and ...\<close>, so
  when two terms both return such a record the collection holds no entry with that
  identifier, not exactly one.
\<close>

theorem empty_identifier_never_stored:
  "list_ex (has_id []) (term_results (online mixed_ids) 10 0)
   \<and> list_ex (has_id []) (term_results (online mixed_ids) 10 1)
   \<and> unique_documents (online mixed_ids) 10
       = Inr [sample_doc ''2024-00001'' ''Artificial intelligence and artificial intelligence'']
   \<and> filter (has_id []) (returned (unique_documents (online mixed_ids) 10)) = []"
  by code_simp

text \<open>
  C2, amended: in a comprehensive run in which no search raises, when the results of two
  search terms both contain a record with the same non-empty document identifier, the
  deduplicated collection contains exactly one entry with that identifier: the first record
  that carries it in the results of the earliest term that returned it, a term no later
  than the earlier of the two. Records of later terms never replace it.
\<close>

theorem comprehensive_dedup:
  "(\<forall>t\<in>set search_terms. search_documents (http_json e) max_docs t \<noteq> Inl TypeError)
   \<and> i \<noteq> [] \<and> a < b \<and> b < length search_terms
   \<and> (\<exists>d\<in>set (term_results e max_docs a). has_id i d)
   \<and> (\<exists>d\<in>set (term_results e max_docs b). has_id i d) \<longrightarrow>
   (\<exists>unique d c. unique_documents e max_docs = Inr unique
          \<and> filter (has_id i) unique = [d]
          \<and> c \<le> a \<and> find (has_id i) (term_results e max_docs c) = Some d
          \<and> (\<forall>c'<c. \<not> (\<exists>x\<in>set (term_results e max_docs c'). has_id i x)))"
proof
  assume h: "(\<forall>t\<in>set search_terms. search_documents (http_json e) max_docs t \<noteq> Inl TypeError)
   \<and> i \<noteq> [] \<and> a < b \<and> b < length search_terms
   \<and> (\<exists>d\<in>set (term_results e max_docs a). has_id i d)
   \<and> (\<exists>d\<in>set (term_results e max_docs b). has_id i d)"
  then obtain unique where u: "unique_documents e max_docs = Inr unique"
    using unique_documents_returns by blast
  let ?xss = "map (\<lambda>t. returned (search_documents (http_json e) max_docs t)) search_terms"
  have nth: "\<And>c. c < length search_terms \<Longrightarrow> ?xss ! c = term_results e max_docs c"
    by (simp add: term_results_def)
  have a: "a < length ?xss" using h by simp
  have "\<exists>x\<in>set (?xss ! a). has_id i x" using h nth [of a] by auto
  from find_concat_first [OF a this] obtain d c where
    dc: "find (has_id i) (concat ?xss) = Some d" "c \<le> a" "find (has_id i) (?xss ! c) = Some d"
        "\<forall>c'<c. \<not> (\<exists>x\<in>set (?xss ! c'). has_id i x)"
    by blast
  have "filter (has_id i) unique = [d]"
    using h dc(1) by (simp add: unique_documents_filter [OF u])
  moreover have "find (has_id i) (term_results e max_docs c) = Some d"
    using dc(2,3) a nth [of c] by simp
  moreover have "\<forall>c'<c. \<not> (\<exists>x\<in>set (term_results e max_docs c'). has_id i x)"
    using dc(2,4) a nth by auto
  ultimately show "\<exists>unique d c. unique_documents e max_docs = Inr unique
          \<and> filter (has_id i) unique = [d]
          \<and> c \<le> a \<and> find (has_id i) (term_results e max_docs c) = Some d
          \<and> (\<forall>c'<c. \<not> (\<exists>x\<in>set (term_results e max_docs c'). has_id i x))"
    using dc(2) u by blast
qed

theorem comprehensive_dedup_witness:
  "list_ex (has_id ''2024-00001'') (term_results (online mixed_ids) 10 0)
   \<and> list_ex (has_id ''2024-00001'') (term_results (online mixed_ids) 10 1)
   \<and> filter (has_id ''2024-00001'') (returned (unique_documents (online mixed_ids) 10))
       = [sample_doc ''2024-00001'' ''Artificial intelligence and artificial intelligence'']"
proof -
  have a: "list_ex (has_id ''2024-00001'') (term_results (online mixed_ids) 10 0)"
    by code_simp
  have b: "list_ex (has_id ''2024-00001'') (term_results (online mixed_ids) 10 1)"
    by code_simp
  have f: "find (has_id ''2024-00001'') (term_results (online mixed_ids) 10 0)
             = Some (sample_doc ''2024-00001'' ''Artificial intelligence and artificial intelligence'')"
    by code_simp
  have "list_all (\<lambda>t. search_documents (http_json (online mixed_ids)) 10 t \<noteq> Inl TypeError)
          search_terms"
    by code_simp
  then have s: "\<forall>t\<in>set search_terms.
                  search_documents (http_json (online mixed_ids)) 10 t \<noteq> Inl TypeError"
    by (simp only: list_all_iff)
  have n: "''2024-00001'' \<noteq> [] \<and> (0::nat) < 1 \<and> (1::nat) < length search_terms"
    by (simp add: search_terms_def)
  from comprehensive_dedup [of "online mixed_ids" 10 "''2024-00001''" 0 1] s a b n
  obtain unique d c where
    dc: "unique_documents (online mixed_ids) 10 = Inr unique"
        "filter (has_id ''2024-00001'') unique = [d]"
        "c \<le> 0" "find (has_id ''2024-00001'') (term_results (online mixed_ids) 10 c) = Some d"
    unfolding list_ex_iff by blast
  from dc(3,4) f
  have "d = sample_doc ''2024-00001'' ''Artificial intelligence and artificial intelligence''"
    by simp
  with dc(1,2) a b show ?thesis by (simp add: returned_def)
qed

section \<open>What a run processes\<close>

lemma saved_entry [simp]:
  "saved \<lparr>p_doc = d, p_pdf_content = c, p_events = evs, p_written = w\<rparr> = w_saved w"
  by (simp add: saved_def)

lemma process_titled:
  "\<forall>d\<in>set docs. titled_text d \<Longrightarrow>
   fst (process_documents e i docs n)
     = Inr (n + length (filter saved (snd (process_documents e i docs n))))
   \<and> map p_doc (snd (process_documents e i docs n)) = docs"
proof (induction docs arbitrary: i n)
  case Nil
  show ?case by simp
next
  case (Cons doc docs)
  from Cons.prems obtain logged where l: "title_prefix doc = Inr logged"
    using title_prefix_titled by auto
  from Cons.prems obtain t where t: "get_or (title doc) ''Untitled Document'' = Some t"
    using titled_text_get_or by auto
  have rest: "\<And>i n. fst (process_documents e i docs n)
                 = Inr (n + length (filter saved (snd (process_documents e i docs n))))
               \<and> map p_doc (snd (process_documents e i docs n)) = docs"
    using Cons.IH Cons.prems by simp
  show ?case
    using rest
    by (simp add: l save_document_titled [OF t] Let_def case_prod_beta)
qed



lemma finish_docs:
  "\<forall>d\<in>set docs. titled_text d \<Longrightarrow>
   map p_doc (snd (finish (process_documents e i docs n))) = docs"
  using process_titled [of docs e i n]
  by (auto simp: finish_def split: sum.splits)

lemma merge_titled:
  "\<forall>kd\<in>set al. titled_text (snd kd) \<Longrightarrow> \<forall>d\<in>set docs. titled_text d \<Longrightarrow>
   \<forall>kd\<in>set (merge_documents al docs). titled_text (snd kd)"
proof (induction docs arbitrary: al)
  case Nil
  then show ?case by simp
next
  case (Cons doc docs)
  have "\<forall>kd\<in>set (let doc_id = get (document_number doc)
                     in if truthy doc_id \<and> map_of al (the doc_id) = None
                        then al @ [(the doc_id, doc)] else al). titled_text (snd kd)"
    using Cons.prems by (auto simp: Let_def)
  then show ?case using Cons.IH Cons.prems(2) by simp
qed

lemma search_all_titled:
  "search_all http md al terms = Inr r \<Longrightarrow> \<forall>kd\<in>set al. titled_text (snd kd) \<Longrightarrow>
   \<forall>kd\<in>set r. titled_text (snd kd)"
proof (induction terms arbitrary: al)
  case Nil
  then show ?case by simp
next
  case (Cons t ts)
  from Cons.prems(1) obtain docs where
    d: "search_documents http md t = Inr docs"
    and r: "search_all http md (merge_documents al docs) ts = Inr r"
    by (auto split: sum.splits)
  have "\<forall>kd\<in>set (merge_documents al docs). titled_text (snd kd)"
    using merge_titled [OF Cons.prems(2)] search_documents_titled [OF d] by blast
  then show ?case by (rule Cons.IH [OF r])
qed

lemma unique_documents_titled:
  "unique_documents e md = Inr unique \<Longrightarrow> \<forall>d\<in>set unique. titled_text d"
proof -
  assume "unique_documents e md = Inr unique"
  then obtain al where
    al: "search_all (http_json e) md [] search_terms = Inr al" "unique = map snd al"
    using unique_documents_keyed by blast
  have "\<forall>kd\<in>set al. titled_text (snd kd)"
    by (rule search_all_titled [OF al(1)]) simp
  then show ?thesis using al(2) by auto
qed

lemma unique_documents_truthy:
  "unique_documents e md = Inr unique \<Longrightarrow> doc \<in> set unique \<Longrightarrow>
   truthy (get (document_number doc))"
proof -
  assume "unique_documents e md = Inr unique" and d: "doc \<in> set unique"
  then obtain al where al: "unique = map snd al" "keyed al"
    using unique_documents_keyed by blast
  then show ?thesis using d by (auto simp: keyed_def truthy_def)
qed

lemma comprehensive_docs:
  "map p_doc (snd (run_comprehensive_search e md)) = returned (unique_documents e md)"
proof (cases "unique_documents e md")
  case (Inl err)
  then show ?thesis by (simp add: run_comprehensive_search_def returned_def)
next
  case (Inr unique)
  then show ?thesis
    using finish_docs [OF unique_documents_titled [OF Inr], of e 1 0]
    by (simp add: run_comprehensive_search_def returned_def)
qed





text \<open>
  C10: every record of the deduplicated collection has a \<open>document_number\<close> that is present
  and not empty, and the records the comprehensive run extracts, writes and counts are
  exactly those of the collection, in its order. A record returned by a search without a
  document number, with \<open>null\<close> for it, or with an empty one, is therefore never processed.
\<close>

theorem missing_identifier_dropped:
  "(\<forall>doc\<in>set (returned (unique_documents e md)). truthy (get (document_number doc)))
   \<and> map p_doc (snd (run_comprehensive_search e md)) = returned (unique_documents e md)
   \<and> (\<not> truthy (get (document_number doc)) \<longrightarrow>
        doc \<notin> set (returned (unique_documents e md))
        \<and> doc \<notin> p_doc ` set (snd (run_comprehensive_search e md)))"
proof -
  have t: "\<forall>d\<in>set (returned (unique_documents e md)). truthy (get (document_number d))"
    by (cases "unique_documents e md") (auto simp: returned_def unique_documents_truthy)
  have m: "map p_doc (snd (run_comprehensive_search e md)) = returned (unique_documents e md)"
    by (rule comprehensive_docs)
  have "p_doc ` set (snd (run_comprehensive_search e md)) = set (returned (unique_documents e md))"
    using m by (metis set_map)
  with t m show ?thesis by auto
qed

theorem missing_identifier_dropped_witness:
  "list_ex (\<lambda>d. d = nameless) (term_results (online mixed_ids) 10 0)
   \<and> list_ex (\<lambda>d. d = null_numbered) (term_results (online mixed_ids) 10 0)
   \<and> list_ex (\<lambda>d. d = blank) (term_results (online mixed_ids) 10 0)
   \<and> \<not> list_ex (\<lambda>p. p_doc p = nameless) (snd (run_comprehensive_search (online mixed_ids) 10))
   \<and> \<not> list_ex (\<lambda>p. p_doc p = null_numbered) (snd (run_comprehensive_search (online mixed_ids) 10))
   \<and> \<not> list_ex (\<lambda>p. p_doc p = blank) (snd (run_comprehensive_search (online mixed_ids) 10))
   \<and> length (snd (run_comprehensive_search (online mixed_ids) 10)) = 1"
proof -
  have a: "list_ex (\<lambda>d. d = nameless) (term_results (online mixed_ids) 10 0)
   \<and> list_ex (\<lambda>d. d = null_numbered) (term_results (online mixed_ids) 10 0)
   \<and> list_ex (\<lambda>d. d = blank) (term_results (online mixed_ids) 10 0)"
    by code_simp
  have n: "\<not> truthy (get (document_number nameless))
         \<and> \<not> truthy (get (document_number null_numbered))
         \<and> \<not> truthy (get (document_number blank))"
    by code_simp
  have u: "length (returned (unique_documents (online mixed_ids) 10)) = 1"
    by code_simp
  have "nameless \<notin> p_doc ` set (snd (run_comprehensive_search (online mixed_ids) 10))"
       "null_numbered \<notin> p_doc ` set (snd (run_comprehensive_search (online mixed_ids) 10))"
       "blank \<notin> p_doc ` set (snd (run_comprehensive_search (online mixed_ids) 10))"
    using missing_identifier_dropped [of "online mixed_ids" 10 nameless]
          missing_identifier_dropped [of "online mixed_ids" 10 null_numbered]
          missing_identifier_dropped [of "online mixed_ids" 10 blank] n
    by blast+
  then have p:
    "\<not> list_ex (\<lambda>p. p_doc p = nameless) (snd (run_comprehensive_search (online mixed_ids) 10))
   \<and> \<not> list_ex (\<lambda>p. p_doc p = null_numbered) (snd (run_comprehensive_search (online mixed_ids) 10))
   \<and> \<not> list_ex (\<lambda>p. p_doc p = blank) (snd (run_comprehensive_search (online mixed_ids) 10))"
    by (auto simp: list_ex_iff image_iff)
  have "length (map p_doc (snd (run_comprehensive_search (online mixed_ids) 10))) = 1"
    using missing_identifier_dropped [of "online mixed_ids" 10 nameless] u by simp
  then have "length (snd (run_comprehensive_search (online mixed_ids) 10)) = 1"
    by simp
  with a p show ?thesis by simp
qed

section \<open>Success of a run and the exit code\<close>



end
